theory Spec2Isabelle
  imports Main "HOL-Library.Sublist" "HOL-Library.Multiset"
begin

section \<open>Python values\<close>

text \<open>
  A Python \<open>str\<close> is a sequence of code points. The model uses \<open>string\<close>, one
  \<open>char\<close> per code point, so it covers the code points below 256; on these
  \<open>str.lower\<close> stays inside the range and never changes the length.

  The exceptions the program can meet are all subclasses of \<open>Exception\<close>.
\<close>

datatype exn = AttributeError | TypeError | OSError | UnicodeDecodeError | JSONDecodeError

text \<open>
  \<open>json.load\<close> returns \<open>None\<close>, a \<open>bool\<close>, an \<open>int\<close>, a \<open>float\<close>, a \<open>str\<close>, a
  \<open>list\<close> or a \<open>dict\<close> with \<open>str\<close> keys. A finite float is a mantissa and a binary
  exponent. A \<open>dict\<close> is the list of its items in insertion order; its keys are
  distinct, and a lookup takes the first item with the key.
\<close>

datatype pyfloat = Finite int int | Infinite bool | NaN

datatype json =
    JNull
  | JBool bool
  | JInt int
  | JFloat pyfloat
  | JStr string
  | JArr "json list"
  | JObj "(string \<times> json) list"

text \<open>Truth value testing, as \<open>or\<close> applies it.\<close>

fun truthy :: "json \<Rightarrow> bool" where
  "truthy JNull = False"
| "truthy (JBool b) = b"
| "truthy (JInt i) = (i \<noteq> 0)"
| "truthy (JFloat f) = (case f of Finite m e \<Rightarrow> m \<noteq> 0 | Infinite s \<Rightarrow> True | NaN \<Rightarrow> True)"
| "truthy (JStr s) = (s \<noteq> [])"
| "truthy (JArr xs) = (xs \<noteq> [])"
| "truthy (JObj kvs) = (kvs \<noteq> [])"

definition py_or :: "json \<Rightarrow> json \<Rightarrow> json" where
  "py_or a b = (if truthy a then a else b)"

text \<open>\<open>d.get(key, default)\<close>: only a \<open>dict\<close> has the method.\<close>

fun dict_get :: "json \<Rightarrow> string \<Rightarrow> json \<Rightarrow> exn + json" where
  "dict_get (JObj kvs) key dflt = Inr (case map_of kvs key of None \<Rightarrow> dflt | Some v \<Rightarrow> v)"
| "dict_get _ key dflt = Inl AttributeError"

section \<open>Characters and strings\<close>

definition isspace :: "char \<Rightarrow> bool" where
  "isspace c = (let n = (of_char c :: nat) in
     (9 \<le> n \<and> n \<le> 13) \<or> (28 \<le> n \<and> n \<le> 32) \<or> n = 133 \<or> n = 160)"

definition isalnum :: "char \<Rightarrow> bool" where
  "isalnum c = (let n = (of_char c :: nat) in
     (48 \<le> n \<and> n \<le> 57) \<or> (65 \<le> n \<and> n \<le> 90) \<or> (97 \<le> n \<and> n \<le> 122) \<or>
     n = 170 \<or> n = 178 \<or> n = 179 \<or> n = 181 \<or> n = 185 \<or> n = 186 \<or>
     (188 \<le> n \<and> n \<le> 190) \<or> (192 \<le> n \<and> n \<le> 214) \<or> (216 \<le> n \<and> n \<le> 246) \<or>
     248 \<le> n)"

text \<open>The class \<open>\w\<close> of \<open>re\<close>: alphanumeric, or the underscore.\<close>

definition is_word_char :: "char \<Rightarrow> bool" where
  "is_word_char c = (isalnum c \<or> c = CHR ''_'')"

definition lower_char :: "char \<Rightarrow> char" where
  "lower_char c = (let n = (of_char c :: nat) in
     if (65 \<le> n \<and> n \<le> 90) \<or> (192 \<le> n \<and> n \<le> 222 \<and> n \<noteq> 215)
     then char_of (n + 32) else c)"

definition lower :: "string \<Rightarrow> string" where
  "lower s = map lower_char s"

text \<open>\<open>v.lower()\<close> on a value: only a \<open>str\<close> has the method.\<close>

fun value_lower :: "json \<Rightarrow> exn + string" where
  "value_lower (JStr s) = Inr (lower s)"
| "value_lower _ = Inl AttributeError"

text \<open>\<open>s.split()\<close>: the maximal runs of non-whitespace characters of \<open>s\<close>.\<close>

fun split_from :: "string \<Rightarrow> string \<Rightarrow> string list" where
  "split_from cur [] = (if cur = [] then [] else [cur])"
| "split_from cur (c # cs) =
     (if isspace c then (if cur = [] then [] else [cur]) @ split_from [] cs
      else split_from (cur @ [c]) cs)"

definition split :: "string \<Rightarrow> string list" where
  "split s = split_from [] s"

fun value_split :: "json \<Rightarrow> exn + string list" where
  "value_split (JStr s) = Inr (split s)"
| "value_split _ = Inl AttributeError"

text \<open>\<open>sep.join(xs)\<close>.\<close>

fun join :: "string \<Rightarrow> string list \<Rightarrow> string" where
  "join sep [] = []"
| "join sep [x] = x"
| "join sep (x # y # ys) = x @ sep @ join sep (y # ys)"

text \<open>\<open>w in s\<close> on strings: \<open>w\<close> occurs in \<open>s\<close> as a contiguous substring.\<close>

fun str_in :: "string \<Rightarrow> string \<Rightarrow> bool" where
  "str_in w [] = (w = [])"
| "str_in w (c # cs) = (prefix w (c # cs) \<or> str_in w cs)"

section \<open>Configuration and lemmatizer\<close>

definition NON_EMPHASIS_WORDS :: "string set" where
  "NON_EMPHASIS_WORDS = set [
    ''a'', ''an'', ''the'', ''and'', ''but'', ''if'', ''or'', ''because'', ''as'', ''until'', ''while'',
    ''of'', ''at'', ''by'', ''for'', ''with'', ''about'', ''against'', ''between'', ''into'', ''through'',
    ''during'', ''before'', ''after'', ''above'', ''below'', ''to'', ''from'', ''up'', ''down'', ''in'', ''out'',
    ''on'', ''off'', ''over'', ''under'', ''again'', ''further'', ''then'', ''once'', ''here'', ''there'',
    ''when'', ''where'', ''why'', ''how'', ''all'', ''any'', ''both'', ''each'', ''few'', ''more'', ''most'',
    ''other'', ''some'', ''such'', ''no'', ''nor'', ''not'', ''only'', ''own'', ''same'', ''so'', ''than'',
    ''too'', ''very'', ''can'', ''will'', ''just'', ''don'', ''should'', ''now'', ''is'']"

text \<open>
  The outcome of opening a path and parsing it with \<open>json.load\<close> is supplied by the
  environment: either an exception or the parsed value.
\<close>

type_synonym json_files = "string \<Rightarrow> exn + json"

definition load_dictionary :: "json_files \<Rightarrow> string \<Rightarrow> json" where
  "load_dictionary read_json dict_path =
     (case read_json dict_path of Inr d \<Rightarrow> d | Inl e \<Rightarrow> JObj [])"

text \<open>
  The global \<open>LEMMATIZER\<close> is a \<open>dict\<close> from \<open>str\<close> to \<open>str\<close>, built once at import; the
  functions that read it take it as their first argument.
\<close>

type_synonym lemmatizer = "string \<rightharpoonup> string"

definition lemmatize_word :: "lemmatizer \<Rightarrow> string \<Rightarrow> string" where
  "lemmatize_word LEMMATIZER word = (case LEMMATIZER word of None \<Rightarrow> word | Some l \<Rightarrow> l)"

section \<open>Query processing\<close>

definition cleaned :: "string \<Rightarrow> string" where
  "cleaned sentence =
     map (\<lambda>c. if is_word_char c \<or> isspace c then c else CHR '' '') (lower sentence)"

definition preprocess_sentence :: "string \<Rightarrow> string list" where
  "preprocess_sentence sentence =
     filter (\<lambda>w. w \<noteq> [] \<and> w \<notin> NON_EMPHASIS_WORDS) (split (cleaned sentence))"

text \<open>
  The set \<open>expanded\<close> is kept as a duplicate-free list in order of first insertion, and
  \<open>list(expanded)\<close> returns that list: one of the orders in which Python may enumerate
  the set.
\<close>

definition set_add :: "string \<Rightarrow> string list \<Rightarrow> string list" where
  "set_add x xs = (if x \<in> set xs then xs else xs @ [x])"

fun add_expansions :: "lemmatizer \<Rightarrow> string list \<Rightarrow> string list \<Rightarrow> string list" where
  "add_expansions LEMMATIZER [] expanded = expanded"
| "add_expansions LEMMATIZER (exp # exps) expanded =
     add_expansions LEMMATIZER exps
       (set_add (lemmatize_word LEMMATIZER exp) (set_add exp expanded))"

fun expand_loop :: "lemmatizer \<Rightarrow> json \<Rightarrow> string list \<Rightarrow> string list \<Rightarrow> exn + string list" where
  "expand_loop LEMMATIZER dictionary [] expanded = Inr expanded"
| "expand_loop LEMMATIZER dictionary (word # words) expanded =
     (case dict_get dictionary word (JStr []) of
        Inl e \<Rightarrow> Inl e
      | Inr v \<Rightarrow>
         (case value_split v of
            Inl e \<Rightarrow> Inl e
          | Inr exps \<Rightarrow>
             expand_loop LEMMATIZER dictionary words
               (add_expansions LEMMATIZER exps
                  (set_add (lemmatize_word LEMMATIZER word) (set_add word expanded)))))"

definition expand_words :: "lemmatizer \<Rightarrow> string list \<Rightarrow> json \<Rightarrow> exn + string list" where
  "expand_words LEMMATIZER words dictionary = expand_loop LEMMATIZER dictionary words []"

section \<open>Scoring\<close>

text \<open>\<open>(doc.get(key) or "").lower()\<close>.\<close>

definition text_field :: "json \<Rightarrow> string \<Rightarrow> exn + string" where
  "text_field doc key =
     (case dict_get doc key JNull of
        Inl e \<Rightarrow> Inl e
      | Inr v \<Rightarrow> value_lower (py_or v (JStr [])))"

text \<open>The two loops thread the pair of \<open>score\<close> and \<open>matched\<close>.\<close>

fun original_pass ::
  "string \<Rightarrow> string \<Rightarrow> string \<Rightarrow> string list \<Rightarrow> int \<times> string set \<Rightarrow> int \<times> string set" where
  "original_pass title desc content [] st = st"
| "original_pass title desc content (word # ws) (score, matched) =
     (if word \<in> matched then original_pass title desc content ws (score, matched)
      else original_pass title desc content ws
        ((if str_in word title then score + 70
          else if str_in word desc then score + 60
          else if str_in word content then score + 50
          else score),
         insert word matched))"

fun expanded_pass ::
  "string \<Rightarrow> string \<Rightarrow> string \<Rightarrow> string list \<Rightarrow> int \<times> string set \<Rightarrow> int \<times> string set" where
  "expanded_pass title desc content [] st = st"
| "expanded_pass title desc content (word # ws) (score, matched) =
     (if word \<in> matched then expanded_pass title desc content ws (score, matched)
      else expanded_pass title desc content ws
        ((if str_in word title then score + 10
          else if str_in word desc then score + 7
          else if str_in word content then score + 5
          else score),
         insert word matched))"

text \<open>The part of \<open>calculate_score\<close> after the three fields have been read.\<close>

definition score_fields ::
  "string \<Rightarrow> string \<Rightarrow> string \<Rightarrow> string list \<Rightarrow> string list \<Rightarrow> int" where
  "score_fields title desc content original expanded =
     (let original_sentence = join '' '' original;
          full_text = title @ '' '' @ desc @ '' '' @ content;
          score = (if original_sentence \<noteq> [] \<and> str_in original_sentence full_text
                   then 90 else 0)
      in fst (expanded_pass title desc content expanded
                (original_pass title desc content original (score, {}))))"

definition calculate_score :: "json \<Rightarrow> string list \<Rightarrow> string list \<Rightarrow> exn + int" where
  "calculate_score doc original expanded =
     (case text_field doc ''title'' of
        Inl e \<Rightarrow> Inl e
      | Inr title \<Rightarrow>
         (case text_field doc ''description'' of
            Inl e \<Rightarrow> Inl e
          | Inr desc \<Rightarrow>
             (case text_field doc ''content'' of
                Inl e \<Rightarrow> Inl e
              | Inr content \<Rightarrow> Inr (score_fields title desc content original expanded))))"

section \<open>Search\<close>

text \<open>What \<open>for doc in documents\<close> iterates over.\<close>

fun iterate :: "json \<Rightarrow> exn + json list" where
  "iterate (JArr xs) = Inr xs"
| "iterate (JObj kvs) = Inr (map (\<lambda>kv. JStr (fst kv)) kvs)"
| "iterate (JStr s) = Inr (map (\<lambda>c. JStr [c]) s)"
| "iterate _ = Inl TypeError"

fun score_documents ::
  "string list \<Rightarrow> string list \<Rightarrow> json list \<Rightarrow> (json \<times> int) list \<Rightarrow> exn + (json \<times> int) list" where
  "score_documents original expanded [] results = Inr results"
| "score_documents original expanded (doc # docs) results =
     (case calculate_score doc original expanded of
        Inl e \<Rightarrow> Inl e
      | Inr score \<Rightarrow>
         score_documents original expanded docs
           (if score > 0 then results @ [(doc, score)] else results))"

text \<open>
  \<open>sorted(xs, key=key, reverse=True)\<close>: the list is reversed, sorted stably by
  ascending key, and reversed again.
\<close>

definition sorted_reverse :: "('a \<Rightarrow> int) \<Rightarrow> 'a list \<Rightarrow> 'a list" where
  "sorted_reverse key xs = rev (sort_key key (rev xs))"

text \<open>
  \<open>search_documents\<close>, without what it prints. An exception raised outside the
  \<open>try\<close> block leaves the function.
\<close>

definition search_documents ::
  "json_files \<Rightarrow> lemmatizer \<Rightarrow> string \<Rightarrow> string \<Rightarrow> string \<Rightarrow> exn + (json \<times> int) list" where
  "search_documents read_json LEMMATIZER query db_path dict_path =
     (let dictionary = load_dictionary read_json dict_path in
      case read_json db_path of
        Inl e \<Rightarrow> Inr []
      | Inr documents \<Rightarrow>
         (let original_words = preprocess_sentence query in
          case expand_words LEMMATIZER original_words dictionary of
            Inl e \<Rightarrow> Inl e
          | Inr expanded_words \<Rightarrow>
             (case iterate documents of
                Inl e \<Rightarrow> Inl e
              | Inr docs \<Rightarrow>
                 (case score_documents original_words expanded_words docs [] of
                    Inl e \<Rightarrow> Inl e
                  | Inr results \<Rightarrow> Inr (sorted_reverse snd results)))))"

section \<open>Notions used to state the properties\<close>

text \<open>What one word earns in each of the two passes, and the exact-phrase bonus.\<close>

definition original_points :: "string \<Rightarrow> string \<Rightarrow> string \<Rightarrow> string \<Rightarrow> int" where
  "original_points title desc content word =
     (if str_in word title then 70 else if str_in word desc then 60
      else if str_in word content then 50 else 0)"

definition expanded_points :: "string \<Rightarrow> string \<Rightarrow> string \<Rightarrow> string \<Rightarrow> int" where
  "expanded_points title desc content word =
     (if str_in word title then 10 else if str_in word desc then 7
      else if str_in word content then 5 else 0)"

definition phrase_bonus :: "string \<Rightarrow> string \<Rightarrow> string \<Rightarrow> string list \<Rightarrow> int" where
  "phrase_bonus title desc content original =
     (if join '' '' original \<noteq> [] \<and>
         str_in (join '' '' original) (title @ '' '' @ desc @ '' '' @ content)
      then 90 else 0)"

text \<open>
  A document as the data model describes it: a \<open>dict\<close> whose fields \<open>title\<close>,
  \<open>description\<close> and \<open>content\<close> are each absent, falsy or a \<open>str\<close>.
\<close>

fun is_str :: "json \<Rightarrow> bool" where
  "is_str (JStr s) = True"
| "is_str _ = False"

definition text_or_falsy :: "json \<Rightarrow> bool" where
  "text_or_falsy v = (is_str v \<or> \<not> truthy v)"

definition field_ok :: "(string \<times> json) list \<Rightarrow> string \<Rightarrow> bool" where
  "field_ok kvs key = (case map_of kvs key of None \<Rightarrow> True | Some v \<Rightarrow> text_or_falsy v)"

fun wf_document :: "json \<Rightarrow> bool" where
  "wf_document (JObj kvs) =
     (field_ok kvs ''title'' \<and> field_ok kvs ''description'' \<and> field_ok kvs ''content'')"
| "wf_document _ = False"

text \<open>An expansion dictionary: a \<open>dict\<close> whose values are all \<open>str\<close>.\<close>

fun is_expansion_dictionary :: "json \<Rightarrow> bool" where
  "is_expansion_dictionary (JObj kvs) = list_all (\<lambda>kv. is_str (snd kv)) kvs"
| "is_expansion_dictionary _ = False"

text \<open>The documents with a positive score, paired with it, in input order.\<close>

definition positive_scores ::
  "string list \<Rightarrow> string list \<Rightarrow> json list \<Rightarrow> (json \<times> int) list" where
  "positive_scores original expanded docs =
     concat (map (\<lambda>doc. case calculate_score doc original expanded of
                          Inl e \<Rightarrow> []
                        | Inr score \<Rightarrow> if 0 < score then [(doc, score)] else []) docs)"

text \<open>The expansion terms that the dictionary lists for a word.\<close>

definition entry_words :: "json \<Rightarrow> string \<Rightarrow> string list" where
  "entry_words dictionary word =
     (case dict_get dictionary word (JStr []) of
        Inr (JStr s) \<Rightarrow> split s
      | _ \<Rightarrow> [])"

text \<open>
  A small collection and a file system, used to instantiate the theorems about the
  search: \<open>db.json\<close> holds four documents, \<open>dict.json\<close> a dictionary with one entry,
  and every other path cannot be opened.
\<close>

definition example_docs :: "json list" where
  "example_docs = [
     JObj [(''title'', JStr ''Notes''), (''content'', JStr ''zig build'')],
     JObj [(''title'', JStr ''Rust book''), (''description'', JNull)],
     JObj [(''title'', JStr ''Zig guide'')],
     JObj [(''content'', JStr ''a zig test'')]]"

definition example_documents :: json where
  "example_documents = JArr example_docs"

definition example_files :: json_files where
  "example_files path =
     (if path = ''db.json'' then Inr example_documents
      else if path = ''dict.json'' then Inr (JObj [(''zig'', JStr ''ziglang'')])
      else Inl OSError)"

definition example_results :: "(json \<times> int) list" where
  "example_results = [
     (JObj [(''title'', JStr ''Zig guide'')], 160),
     (JObj [(''title'', JStr ''Notes''), (''content'', JStr ''zig build'')], 140),
     (JObj [(''content'', JStr ''a zig test'')], 140)]"

text \<open>
  A file system whose dictionary sources parse as JSON but are not dictionaries of
  strings: \<open>list.json\<close> holds a list, \<open>numbers.json\<close> a dict with a number as a value.
\<close>

definition malformed_files :: json_files where
  "malformed_files path =
     (if path = ''db.json'' then Inr example_documents
      else if path = ''list.json'' then Inr (JArr [JInt 1, JInt 2])
      else if path = ''numbers.json'' then Inr (JObj [(''zig'', JInt 5)])
      else Inl OSError)"

section \<open>Substrings and joining\<close>

lemma str_in_sublist: "str_in w s = sublist w s"
  by (induction s) (simp_all add: sublist_Cons_right)

lemma sublist_in_left: "sublist w s \<Longrightarrow> sublist w (p @ s)"
  unfolding sublist_def by (metis append.assoc)

lemma sublist_in_right: "sublist w s \<Longrightarrow> sublist w (s @ q)"
  unfolding sublist_def by (metis append.assoc)

lemma sublist_in_trans: "sublist u v \<Longrightarrow> sublist v w \<Longrightarrow> sublist u w"
  unfolding sublist_def by (metis append.assoc)

lemma sublist_join: "w \<in> set ws \<Longrightarrow> sublist w (join sep ws)"
proof (induction sep ws rule: join.induct)
  case (1 sep)
  then show ?case by simp
next
  case (2 sep x)
  then show ?case by simp
next
  case (3 sep x y ys)
  show ?case
  proof (cases "w = x")
    case True
    then show ?thesis by simp
  next
    case False
    with 3 have "sublist w (join sep (y # ys))" by simp
    then have "sublist w ((x @ sep) @ join sep (y # ys))"
      by (rule sublist_in_left)
    then show ?thesis by simp
  qed
qed

lemma join_nonempty: "ws \<noteq> [] \<Longrightarrow> [] \<notin> set ws \<Longrightarrow> join sep ws \<noteq> []"
  by (induction sep ws rule: join.induct) auto

section \<open>The score as a sum over words\<close>

lemma original_pass_eq:
  "original_pass t d c ws (s, m) =
     (s + (\<Sum>w \<in> set ws - m. original_points t d c w), m \<union> set ws)"
proof (induction ws arbitrary: s m)
  case Nil
  then show ?case by simp
next
  case (Cons w ws)
  show ?case
  proof (cases "w \<in> m")
    case True
    then have "set (w # ws) - m = set ws - m" by auto
    with True Cons show ?thesis by (simp add: insert_absorb)
  next
    case False
    have split: "set (w # ws) - m = insert w (set ws - insert w m)" using False by auto
    have "(\<Sum>x \<in> set (w # ws) - m. original_points t d c x) =
          original_points t d c w + (\<Sum>x \<in> set ws - insert w m. original_points t d c x)"
      unfolding split by (rule sum.insert) auto
    with False Cons show ?thesis
      by (simp add: original_points_def)
  qed
qed

lemma expanded_pass_eq:
  "expanded_pass t d c ws (s, m) =
     (s + (\<Sum>w \<in> set ws - m. expanded_points t d c w), m \<union> set ws)"
proof (induction ws arbitrary: s m)
  case Nil
  then show ?case by simp
next
  case (Cons w ws)
  show ?case
  proof (cases "w \<in> m")
    case True
    then have "set (w # ws) - m = set ws - m" by auto
    with True Cons show ?thesis by (simp add: insert_absorb)
  next
    case False
    have split: "set (w # ws) - m = insert w (set ws - insert w m)" using False by auto
    have "(\<Sum>x \<in> set (w # ws) - m. expanded_points t d c x) =
          expanded_points t d c w + (\<Sum>x \<in> set ws - insert w m. expanded_points t d c x)"
      unfolding split by (rule sum.insert) auto
    with False Cons show ?thesis
      by (simp add: expanded_points_def)
  qed
qed

lemma score_fields_eq:
  "score_fields t d c original expanded =
     phrase_bonus t d c original
     + (\<Sum>w \<in> set original. original_points t d c w)
     + (\<Sum>w \<in> set expanded - set original. expanded_points t d c w)"
  by (simp add: score_fields_def Let_def original_pass_eq expanded_pass_eq phrase_bonus_def)

lemma expanded_points_nonneg: "0 \<le> expanded_points t d c w"
  by (simp add: expanded_points_def)

lemma original_points_nonneg: "0 \<le> original_points t d c w"
  by (simp add: original_points_def)

lemma score_fields_mono:
  assumes "set E \<subseteq> set E'"
  shows "score_fields t d c original E \<le> score_fields t d c original E'"
proof -
  have "(\<Sum>w \<in> set E - set original. expanded_points t d c w)
        \<le> (\<Sum>w \<in> set E' - set original. expanded_points t d c w)"
    by (rule sum_mono2) (use assms in \<open>auto simp: expanded_points_nonneg\<close>)
  then show ?thesis by (simp add: score_fields_eq)
qed

lemma score_fields_cong_set:
  "set E = set E' \<Longrightarrow> score_fields t d c original E = score_fields t d c original E'"
  by (simp add: score_fields_eq)

lemma score_fields_title_phrase:
  assumes "join '' '' original \<noteq> []" and "str_in (join '' '' original) t"
  shows "90 + 70 * int (card (set original)) \<le> score_fields t d c original expanded"
proof -
  have "sublist (join '' '' original) (t @ '' '' @ d @ '' '' @ c)"
    using assms(2) unfolding str_in_sublist by (rule sublist_in_right)
  then have bonus: "phrase_bonus t d c original = 90"
    using assms(1) by (simp add: phrase_bonus_def str_in_sublist)
  have "original_points t d c w = 70" if "w \<in> set original" for w
  proof -
    have "sublist w (join '' '' original)" using that by (rule sublist_join)
    then have "sublist w t" using assms(2)
      unfolding str_in_sublist by (rule sublist_in_trans)
    then show ?thesis by (simp add: original_points_def str_in_sublist)
  qed
  then have "(\<Sum>w \<in> set original. original_points t d c w) = 70 * int (card (set original))"
    by simp
  moreover have "0 \<le> (\<Sum>w \<in> set expanded - set original. expanded_points t d c w)"
    by (rule sum_nonneg) (simp add: expanded_points_nonneg)
  ultimately show ?thesis using bonus by (simp add: score_fields_eq)
qed

section \<open>Reading the fields of a document\<close>

lemma text_field_JObj:
  "text_field (JObj kvs) key =
     (case map_of kvs key of
        None \<Rightarrow> Inr []
      | Some v \<Rightarrow> if truthy v then value_lower v else Inr [])"
  by (simp add: text_field_def py_or_def lower_def split: option.splits)

lemma field_ok_text_field: "field_ok kvs key \<Longrightarrow> \<exists>s. text_field (JObj kvs) key = Inr s"
  by (cases "map_of kvs key")
     (auto simp: text_field_JObj field_ok_def text_or_falsy_def elim: is_str.elims)

lemma wf_document_fields:
  assumes "wf_document doc"
  obtains title desc content where
    "text_field doc ''title'' = Inr title"
    "text_field doc ''description'' = Inr desc"
    "text_field doc ''content'' = Inr content"
proof -
  from assms obtain kvs where doc: "doc = JObj kvs"
    by (cases doc) simp_all
  with assms have "field_ok kvs ''title''" "field_ok kvs ''description''" "field_ok kvs ''content''"
    by simp_all
  then show thesis using that doc by (meson field_ok_text_field)
qed

lemma calculate_score_fields:
  assumes "text_field doc ''title'' = Inr title"
    and "text_field doc ''description'' = Inr desc"
    and "text_field doc ''content'' = Inr content"
  shows "calculate_score doc original expanded =
           Inr (score_fields title desc content original expanded)"
  using assms by (simp add: calculate_score_def)

lemma calculate_score_cases:
  obtains (raises) e where "\<And>original expanded. calculate_score doc original expanded = Inl e"
  | (returns) title desc content where
      "\<And>original expanded. calculate_score doc original expanded =
          Inr (score_fields title desc content original expanded)"
proof (cases "text_field doc ''title''")
  case (Inl e)
  then show ?thesis using raises by (simp add: calculate_score_def)
next
  case title: (Inr title)
  show ?thesis
  proof (cases "text_field doc ''description''")
    case (Inl e)
    with title show ?thesis using raises by (simp add: calculate_score_def)
  next
    case desc: (Inr desc)
    show ?thesis
    proof (cases "text_field doc ''content''")
      case (Inl e)
      with title desc show ?thesis using raises by (simp add: calculate_score_def)
    next
      case (Inr content)
      with title desc show ?thesis using returns by (simp add: calculate_score_def)
    qed
  qed
qed

lemma wf_document_score:
  "wf_document doc \<Longrightarrow> \<exists>s. calculate_score doc original expanded = Inr s"
  by (erule wf_document_fields) (simp add: calculate_score_fields)

lemma preprocess_sentence_nonempty_tokens: "[] \<notin> set (preprocess_sentence query)"
  by (simp add: preprocess_sentence_def)

section \<open>Properties of the scorer\<close>

text \<open>
  C2. In the original-term pass every processed word of \<open>original\<close> ends up in
  \<open>matched\<close>, whatever the three fields contain and whatever it scored. The
  expanded-term pass therefore skips it, and the score is the same as if the word had
  not been among the expanded terms at all: it never earns an expanded-pass credit.
\<close>

theorem original_word_marked_matched:
  assumes "w \<in> set original"
  shows "w \<in> snd (original_pass title desc content original (score, matched)) \<and>
         expanded_pass title desc content (w # rest)
             (original_pass title desc content original (score, matched)) =
           expanded_pass title desc content rest
             (original_pass title desc content original (score, matched)) \<and>
         calculate_score doc original expanded =
           calculate_score doc original (removeAll w expanded)"
proof (intro conjI)
  show in_matched: "w \<in> snd (original_pass title desc content original (score, matched))"
    using assms by (simp add: original_pass_eq)
  then show "expanded_pass title desc content (w # rest)
             (original_pass title desc content original (score, matched)) =
           expanded_pass title desc content rest
             (original_pass title desc content original (score, matched))"
    by (cases "original_pass title desc content original (score, matched)") simp
  have "set expanded - set original = set (removeAll w expanded) - set original"
    using assms by auto
  then have "score_fields t d c original expanded =
             score_fields t d c original (removeAll w expanded)" for t d c
    by (simp add: score_fields_eq)
  then show "calculate_score doc original expanded =
           calculate_score doc original (removeAll w expanded)"
    by (cases doc rule: calculate_score_cases) simp_all
qed

theorem original_word_marked_matched_witness:
  "''rust'' \<in> set [''rust''] \<and>
   (''rust'' \<in> snd (original_pass ''zig lang'' [] [] [''rust''] (0, {})) \<and>
    expanded_pass ''zig lang'' [] [] (''rust'' # [''zig''])
        (original_pass ''zig lang'' [] [] [''rust''] (0, {})) =
      expanded_pass ''zig lang'' [] [] [''zig'']
        (original_pass ''zig lang'' [] [] [''rust''] (0, {})) \<and>
    calculate_score (JObj [(''title'', JStr ''Zig lang'')]) [''rust''] [''rust'', ''zig''] =
      calculate_score (JObj [(''title'', JStr ''Zig lang'')]) [''rust'']
        (removeAll ''rust'' [''rust'', ''zig'']))"
proof -
  have h: "''rust'' \<in> set [''rust'']" by simp
  show ?thesis
    by (rule conjI [OF h original_word_marked_matched [OF h]])
qed

text \<open>
  C8. The scorer is monotone in the expanded terms: for duplicate-free lists \<open>E\<close> and
  \<open>E'\<close> with every element of \<open>E\<close> in \<open>E'\<close>, the score with \<open>E\<close> is at most the score
  with \<open>E'\<close>. When the document makes the scorer raise, it raises the same exception
  with both.
\<close>

theorem calculate_score_mono_expanded:
  assumes "distinct E" and "distinct E'" and "set E \<subseteq> set E'"
  shows "case calculate_score doc original E of
           Inl e \<Rightarrow> calculate_score doc original E' = Inl e
         | Inr s \<Rightarrow> (\<exists>s'. calculate_score doc original E' = Inr s' \<and> s \<le> s')"
  using assms(3) by (cases doc rule: calculate_score_cases) (simp_all add: score_fields_mono)

theorem calculate_score_mono_expanded_witness:
  "(distinct [''zig''] \<and> distinct [''zig'', ''lang''] \<and> set [''zig''] \<subseteq> set [''zig'', ''lang'']) \<and>
   (case calculate_score (JObj [(''title'', JStr ''Zig lang'')]) [''rust''] [''zig''] of
      Inl e \<Rightarrow>
        calculate_score (JObj [(''title'', JStr ''Zig lang'')]) [''rust''] [''zig'', ''lang''] = Inl e
    | Inr s \<Rightarrow>
        (\<exists>s'. calculate_score (JObj [(''title'', JStr ''Zig lang'')]) [''rust''] [''zig'', ''lang'']
                = Inr s' \<and> s \<le> s'))"
proof -
  have h1: "distinct [''zig'']" by simp
  have h2: "distinct [''zig'', ''lang'']" by simp
  have h3: "set [''zig''] \<subseteq> set [''zig'', ''lang'']" by simp
  show ?thesis
    by (intro conjI h1 h2 h3 calculate_score_mono_expanded [OF h1 h2 h3])
qed

text \<open>
  C9. The score does not depend on the order in which the expanded terms are visited:
  for a duplicate-free list \<open>E\<close>, every permutation \<open>E'\<close> of \<open>E\<close> gives the same result.
\<close>

theorem calculate_score_permutation:
  assumes "distinct E" and "mset E' = mset E"
  shows "calculate_score doc original E' = calculate_score doc original E"
proof -
  from assms(2) have "set E' = set E" by (rule mset_eq_setD)
  then have "score_fields t d c original E' = score_fields t d c original E" for t d c
    by (rule score_fields_cong_set)
  then show ?thesis
    by (cases doc rule: calculate_score_cases) simp_all
qed

theorem calculate_score_permutation_witness:
  "(distinct [''zig'', ''lang''] \<and> mset [''lang'', ''zig''] = mset [''zig'', ''lang'']) \<and>
   calculate_score (JObj [(''title'', JStr ''Zig lang'')]) [''rust''] [''lang'', ''zig''] =
   calculate_score (JObj [(''title'', JStr ''Zig lang'')]) [''rust''] [''zig'', ''lang'']"
proof -
  have h1: "distinct [''zig'', ''lang'']" by simp
  have h2: "mset [''lang'', ''zig''] = mset [''zig'', ''lang'']" by simp
  show ?thesis
    by (intro conjI h1 h2 calculate_score_permutation [OF h1 h2])
qed

text \<open>
  C3, as stated: whenever the lowercased title contains the phrase of the normalized
  query, the score is at least 90 plus 70 for each distinct word. This fails for a query
  of stopwords only: its phrase is empty, the empty phrase occurs in every title, no other
  field matches anything, and the score is 0, below the bound of 90.
\<close>

theorem title_phrase_empty_query_counterexample:
  "preprocess_sentence ''the'' = [] \<and>
   wf_document (JObj [(''title'', JStr ''Zig'')]) \<and>
   text_field (JObj [(''title'', JStr ''Zig'')]) ''title'' = Inr ''zig'' \<and>
   str_in (join '' '' (preprocess_sentence ''the'')) ''zig'' \<and>
   expand_words Map.empty (preprocess_sentence ''the'') (JObj []) = Inr [] \<and>
   calculate_score (JObj [(''title'', JStr ''Zig'')]) (preprocess_sentence ''the'') [] = Inr 0 \<and>
   \<not> (90 + 70 * int (card (set (preprocess_sentence ''the''))) \<le> (0::int))"
proof -
  have tokens: "preprocess_sentence ''the'' = []"
    by code_simp
  have title: "text_field (JObj [(''title'', JStr ''Zig'')]) ''title'' = Inr ''zig''"
    by code_simp
  have score: "calculate_score (JObj [(''title'', JStr ''Zig'')]) [] [] = Inr 0"
    by code_simp
  have wf: "wf_document (JObj [(''title'', JStr ''Zig'')])"
    by (simp add: field_ok_def text_or_falsy_def)
  have phrase: "str_in (join '' '' []) ''zig''"
    by simp
  have expansion: "expand_words Map.empty [] (JObj []) = Inr []"
    by (simp add: expand_words_def)
  have bound: "\<not> (90 + 70 * int (card (set ([] :: string list))) \<le> (0::int))"
    by simp
  show ?thesis
    unfolding tokens by (intro conjI refl wf title phrase expansion score bound)
qed

text \<open>
  C3, amended: for a query whose normalized token sequence is not empty and a document
  with text fields, if the lowercased title contains the phrase of the normalized query,
  then the scorer returns at least 90 plus 70 times the number of distinct words of the
  normalized query, whatever the other fields and the expanded terms are.
\<close>

theorem title_phrase_score_lower_bound:
  assumes "original = preprocess_sentence query" and "original \<noteq> []"
    and "wf_document doc"
    and "text_field doc ''title'' = Inr title"
    and "str_in (join '' '' original) title"
  shows "\<exists>s. calculate_score doc original expanded = Inr s \<and>
             90 + 70 * int (card (set original)) \<le> s"
proof -
  from assms(3) obtain t d c where fields:
    "text_field doc ''title'' = Inr t"
    "text_field doc ''description'' = Inr d"
    "text_field doc ''content'' = Inr c"
    by (rule wf_document_fields)
  with assms(4) have t: "t = title" by simp
  have "join '' '' original \<noteq> []"
    using assms(1,2) by (simp add: join_nonempty preprocess_sentence_nonempty_tokens)
  then have "90 + 70 * int (card (set original)) \<le> score_fields title d c original expanded"
    using assms(5) by (rule score_fields_title_phrase)
  then show ?thesis using fields t by (simp add: calculate_score_fields)
qed

theorem title_phrase_score_lower_bound_witness:
  "([''zig'', ''lang''] = preprocess_sentence ''Zig Lang'' \<and> [''zig'', ''lang''] \<noteq> [] \<and>
    wf_document (JObj [(''title'', JStr ''The Zig Lang book'')]) \<and>
    text_field (JObj [(''title'', JStr ''The Zig Lang book'')]) ''title'' = Inr ''the zig lang book'' \<and>
    str_in (join '' '' [''zig'', ''lang'']) ''the zig lang book'') \<and>
   (\<exists>s. calculate_score (JObj [(''title'', JStr ''The Zig Lang book'')]) [''zig'', ''lang''] [] = Inr s \<and>
        90 + 70 * int (card (set [''zig'', ''lang''])) \<le> s)"
proof -
  have h1: "[''zig'', ''lang''] = preprocess_sentence ''Zig Lang''"
    by code_simp
  have h2: "[''zig'', ''lang''] \<noteq> ([] :: string list)"
    by simp
  have h3: "wf_document (JObj [(''title'', JStr ''The Zig Lang book'')])"
    by (simp add: field_ok_def text_or_falsy_def)
  have h4: "text_field (JObj [(''title'', JStr ''The Zig Lang book'')]) ''title'' =
              Inr ''the zig lang book''"
    by code_simp
  have h5: "str_in (join '' '' [''zig'', ''lang'']) ''the zig lang book''"
    by code_simp
  show ?thesis
    by (intro conjI h1 h2 h3 h4 h5 title_phrase_score_lower_bound [OF h1 h2 h3 h4 h5])
qed

section \<open>Properties of the query normalizer\<close>











section \<open>Properties of the term expander\<close>

lemma set_set_add: "set (set_add x xs) = insert x (set xs)"
  by (auto simp: set_add_def)

lemma distinct_set_add: "distinct xs \<Longrightarrow> distinct (set_add x xs)"
  by (simp add: set_add_def)

lemma set_add_expansions:
  "set (add_expansions L exps expanded) =
     set expanded \<union> set exps \<union> lemmatize_word L ` set exps"
  by (induction exps arbitrary: expanded) (auto simp: set_set_add)

lemma distinct_add_expansions:
  "distinct expanded \<Longrightarrow> distinct (add_expansions L exps expanded)"
  by (induction exps arbitrary: expanded) (simp_all add: distinct_set_add)

lemma is_expansion_dictionary_get:
  assumes "is_expansion_dictionary dictionary"
  obtains s where "dict_get dictionary word (JStr []) = Inr (JStr s)"
proof -
  from assms obtain kvs where d: "dictionary = JObj kvs" and all: "list_all (\<lambda>kv. is_str (snd kv)) kvs"
    by (cases dictionary) simp_all
  show thesis
  proof (cases "map_of kvs word")
    case None
    with d that show ?thesis by simp
  next
    case (Some v)
    then have "(word, v) \<in> set kvs" by (rule map_of_SomeD)
    with all have "is_str v" by (auto simp: list_all_iff)
    then obtain s where "v = JStr s" by (cases v) simp_all
    with d Some that show ?thesis by simp
  qed
qed

lemma expand_loop_set:
  assumes "is_expansion_dictionary dictionary"
  shows "\<exists>expanded. expand_loop L dictionary words acc = Inr expanded \<and>
           set expanded = set acc \<union>
             (\<Union>w \<in> set words. {w, lemmatize_word L w} \<union> set (entry_words dictionary w) \<union>
                lemmatize_word L ` set (entry_words dictionary w)) \<and>
           (distinct acc \<longrightarrow> distinct expanded)"
proof (induction words arbitrary: acc)
  case Nil
  then show ?case by simp
next
  case (Cons w ws)
  from assms obtain s where get: "dict_get dictionary w (JStr []) = Inr (JStr s)"
    by (rule is_expansion_dictionary_get)
  then have entry: "entry_words dictionary w = split s"
    by (simp add: entry_words_def)
  let ?acc = "add_expansions L (split s) (set_add (lemmatize_word L w) (set_add w acc))"
  from Cons.IH [of ?acc] obtain expanded where
    loop: "expand_loop L dictionary ws ?acc = Inr expanded"
    and set: "set expanded = set ?acc \<union>
             (\<Union>w \<in> set ws. {w, lemmatize_word L w} \<union> set (entry_words dictionary w) \<union>
                lemmatize_word L ` set (entry_words dictionary w))"
    and dist: "distinct ?acc \<longrightarrow> distinct expanded"
    by blast
  have step: "expand_loop L dictionary (w # ws) acc = Inr expanded"
    using get loop by simp
  have acc: "set ?acc = set acc \<union> {w, lemmatize_word L w} \<union> set (split s) \<union>
               lemmatize_word L ` set (split s)"
    by (auto simp: set_add_expansions set_set_add)
  have "distinct acc \<longrightarrow> distinct ?acc"
    by (simp add: distinct_add_expansions distinct_set_add)
  with dist have d: "distinct acc \<longrightarrow> distinct expanded" by blast
  have "set expanded = set acc \<union>
             (\<Union>w \<in> set (w # ws). {w, lemmatize_word L w} \<union> set (entry_words dictionary w) \<union>
                lemmatize_word L ` set (entry_words dictionary w))"
    unfolding set acc by (auto simp: entry)
  with step d show ?case by blast
qed

lemma entry_words_missing:
  "map_of kvs word = None \<Longrightarrow> entry_words (JObj kvs) word = []"
  by (simp add: entry_words_def split_def)



section \<open>The worked scenario\<close>

lemma calculate_score_cong_set:
  assumes "set E = set E'"
  shows "calculate_score doc original E = calculate_score doc original E'"
proof -
  from assms have "score_fields t d c original E = score_fields t d c original E'" for t d c
    by (rule score_fields_cong_set)
  then show ?thesis
    by (cases doc rule: calculate_score_cases) simp_all
qed

text \<open>
  C4. With the dictionary \<open>{"fast": "quick rapid"}\<close> and the lemma table
  \<open>{"running": "run"}\<close>, the query \<open>fast running\<close> normalizes to \<open>fast\<close>, \<open>running\<close>;
  its expansion is \<open>fast\<close>, \<open>quick\<close>, \<open>rapid\<close>, \<open>running\<close>, \<open>run\<close>; and the document with
  title \<open>Quick results\<close> and content \<open>we run fast tests\<close> scores exactly 65, in whatever
  order the expanded terms are visited: 50 for \<open>fast\<close> in the content, 10 for \<open>quick\<close> in
  the title, 5 for \<open>run\<close> in the content, and no phrase bonus.
\<close>

theorem scenario_fast_running:
  "preprocess_sentence ''fast running'' = [''fast'', ''running''] \<and>
   expand_words [''running'' \<mapsto> ''run''] [''fast'', ''running'']
       (JObj [(''fast'', JStr ''quick rapid'')]) =
     Inr [''fast'', ''quick'', ''rapid'', ''running'', ''run''] \<and>
   phrase_bonus ''quick results'' [] ''we run fast tests'' [''fast'', ''running''] = 0 \<and>
   original_points ''quick results'' [] ''we run fast tests'' ''fast'' = 50 \<and>
   original_points ''quick results'' [] ''we run fast tests'' ''running'' = 0 \<and>
   expanded_points ''quick results'' [] ''we run fast tests'' ''quick'' = 10 \<and>
   expanded_points ''quick results'' [] ''we run fast tests'' ''rapid'' = 0 \<and>
   expanded_points ''quick results'' [] ''we run fast tests'' ''run'' = 5 \<and>
   (\<forall>expanded. set expanded = {''fast'', ''quick'', ''rapid'', ''running'', ''run''} \<longrightarrow>
      calculate_score
        (JObj [(''title'', JStr ''Quick results''), (''content'', JStr ''we run fast tests'')])
        [''fast'', ''running''] expanded = Inr 65)"
proof -
  have tokens: "preprocess_sentence ''fast running'' = [''fast'', ''running'']"
    by code_simp
  have expansion: "expand_words [''running'' \<mapsto> ''run''] [''fast'', ''running'']
       (JObj [(''fast'', JStr ''quick rapid'')]) =
     Inr [''fast'', ''quick'', ''rapid'', ''running'', ''run'']"
    by code_simp
  have bonus: "phrase_bonus ''quick results'' [] ''we run fast tests'' [''fast'', ''running''] = 0"
    by code_simp
  have o1: "original_points ''quick results'' [] ''we run fast tests'' ''fast'' = 50"
    by code_simp
  have o2: "original_points ''quick results'' [] ''we run fast tests'' ''running'' = 0"
    by code_simp
  have e1: "expanded_points ''quick results'' [] ''we run fast tests'' ''quick'' = 10"
    by code_simp
  have e2: "expanded_points ''quick results'' [] ''we run fast tests'' ''rapid'' = 0"
    by code_simp
  have e3: "expanded_points ''quick results'' [] ''we run fast tests'' ''run'' = 5"
    by code_simp
  have score: "calculate_score
        (JObj [(''title'', JStr ''Quick results''), (''content'', JStr ''we run fast tests'')])
        [''fast'', ''running''] [''fast'', ''quick'', ''rapid'', ''running'', ''run''] = Inr 65"
    by code_simp
  have any_order: "calculate_score
        (JObj [(''title'', JStr ''Quick results''), (''content'', JStr ''we run fast tests'')])
        [''fast'', ''running''] expanded = Inr 65"
    if "set expanded = {''fast'', ''quick'', ''rapid'', ''running'', ''run''}" for expanded
  proof -
    from that have "set expanded = set [''fast'', ''quick'', ''rapid'', ''running'', ''run'']"
      by simp
    from calculate_score_cong_set [OF this] score show ?thesis by simp
  qed
  show ?thesis
    using tokens expansion bonus o1 o2 e1 e2 e3 any_order by blast
qed

theorem scenario_fast_running_witness:
  "set [''run'', ''running'', ''rapid'', ''quick'', ''fast''] =
     {''fast'', ''quick'', ''rapid'', ''running'', ''run''} \<and>
   calculate_score
     (JObj [(''title'', JStr ''Quick results''), (''content'', JStr ''we run fast tests'')])
     [''fast'', ''running''] [''run'', ''running'', ''rapid'', ''quick'', ''fast''] = Inr 65"
proof -
  have h: "set [''run'', ''running'', ''rapid'', ''quick'', ''fast''] =
     {''fast'', ''quick'', ''rapid'', ''running'', ''run''}"
    by auto
  from scenario_fast_running have "\<forall>expanded. set expanded = {''fast'', ''quick'', ''rapid'', ''running'', ''run''} \<longrightarrow>
      calculate_score
        (JObj [(''title'', JStr ''Quick results''), (''content'', JStr ''we run fast tests'')])
        [''fast'', ''running''] expanded = Inr 65"
    by blast
  with h show ?thesis by blast
qed

section \<open>Absent and falsy fields\<close>

lemma map_of_filter_key:
  "map_of (filter (\<lambda>kv. fst kv \<noteq> key) kvs) k = (if k = key then None else map_of kvs k)"
  by (induction kvs) auto

lemma text_field_falsy:
  assumes "map_of kvs key = Some v" and "\<not> truthy v"
  shows "text_field (JObj kvs) key = Inr []"
  using assms by (simp add: text_field_JObj)

lemma text_field_absent:
  assumes "map_of kvs key = None"
  shows "text_field (JObj kvs) key = Inr []"
  using assms by (simp add: text_field_JObj)

lemma text_field_remove_falsy:
  assumes "map_of kvs key = Some v" and "\<not> truthy v"
  shows "text_field (JObj (filter (\<lambda>kv. fst kv \<noteq> key) kvs)) k = text_field (JObj kvs) k"
  using assms by (simp add: text_field_JObj map_of_filter_key)

text \<open>
  C10. A field that is present with a falsy value (\<open>None\<close>, \<open>False\<close>, zero, an empty
  string, list or dict) is read as the empty string, exactly as an absent field is:
  removing the field from the document does not change the result of the scorer. So
  scoring returns a score for every document whose \<open>title\<close>, \<open>description\<close> and
  \<open>content\<close> are each absent, falsy or a string; with all three absent it scores the
  three empty strings.
\<close>

theorem falsy_field_like_absent:
  assumes "map_of kvs key = Some v" and "\<not> truthy v"
  shows "text_field (JObj kvs) key = Inr [] \<and>
         text_field (JObj (filter (\<lambda>kv. fst kv \<noteq> key) kvs)) key = Inr [] \<and>
         calculate_score (JObj kvs) original expanded =
           calculate_score (JObj (filter (\<lambda>kv. fst kv \<noteq> key) kvs)) original expanded \<and>
         (wf_document (JObj kvs') \<longrightarrow>
            (\<exists>score. calculate_score (JObj kvs') original expanded = Inr score)) \<and>
         (map_of kvs' ''title'' = None \<and> map_of kvs' ''description'' = None \<and>
          map_of kvs' ''content'' = None \<longrightarrow>
            calculate_score (JObj kvs') original expanded =
              Inr (score_fields [] [] [] original expanded))"
proof (intro conjI)
  show "text_field (JObj kvs) key = Inr []"
    using assms by (rule text_field_falsy)
  show "text_field (JObj (filter (\<lambda>kv. fst kv \<noteq> key) kvs)) key = Inr []"
    by (rule text_field_absent) (simp add: map_of_filter_key)
  show "calculate_score (JObj kvs) original expanded =
           calculate_score (JObj (filter (\<lambda>kv. fst kv \<noteq> key) kvs)) original expanded"
    unfolding calculate_score_def text_field_remove_falsy [OF assms] ..
  show "wf_document (JObj kvs') \<longrightarrow>
            (\<exists>score. calculate_score (JObj kvs') original expanded = Inr score)"
    by (simp add: wf_document_score)
  show "map_of kvs' ''title'' = None \<and> map_of kvs' ''description'' = None \<and>
          map_of kvs' ''content'' = None \<longrightarrow>
            calculate_score (JObj kvs') original expanded =
              Inr (score_fields [] [] [] original expanded)"
    by (simp add: calculate_score_fields text_field_absent)
qed

theorem falsy_field_like_absent_witness:
  "(map_of [(''title'', JNull), (''content'', JStr ''Zig'')] ''title'' = Some JNull \<and> \<not> truthy JNull) \<and>
   calculate_score (JObj [(''title'', JNull), (''content'', JStr ''Zig'')]) [''zig''] [] =
     calculate_score (JObj (filter (\<lambda>kv. fst kv \<noteq> ''title'')
        [(''title'', JNull), (''content'', JStr ''Zig'')])) [''zig''] [] \<and>
   wf_document (JObj [(''content'', JInt 0)]) \<and>
   (\<exists>score. calculate_score (JObj [(''content'', JInt 0)]) [''zig''] [] = Inr score) \<and>
   (map_of [] ''title'' = (None :: json option) \<and> map_of [] ''description'' = (None :: json option) \<and>
    map_of [] ''content'' = (None :: json option)) \<and>
   calculate_score (JObj []) [''zig''] [] = Inr (score_fields [] [] [] [''zig''] [])"
proof -
  have h1: "map_of [(''title'', JNull), (''content'', JStr ''Zig'')] ''title'' = Some JNull"
    by simp
  have h2: "\<not> truthy JNull"
    by simp
  have h3: "wf_document (JObj [(''content'', JInt 0)])"
    by (simp add: field_ok_def text_or_falsy_def)
  have h4: "map_of [] ''title'' = (None :: json option) \<and>
    map_of [] ''description'' = (None :: json option) \<and> map_of [] ''content'' = (None :: json option)"
    by simp
  note t1 = falsy_field_like_absent [OF h1 h2, where kvs' = "[(''content'', JInt 0)]"
      and original = "[''zig'']" and expanded = "[]"]
  note t2 = falsy_field_like_absent [OF h1 h2, where kvs' = "[]"
      and original = "[''zig'']" and expanded = "[]"]
  from t1 have c1: "calculate_score (JObj [(''title'', JNull), (''content'', JStr ''Zig'')]) [''zig''] [] =
     calculate_score (JObj (filter (\<lambda>kv. fst kv \<noteq> ''title'')
        [(''title'', JNull), (''content'', JStr ''Zig'')])) [''zig''] []"
    by blast
  from t1 h3 have c2: "\<exists>score. calculate_score (JObj [(''content'', JInt 0)]) [''zig''] [] = Inr score"
    by blast
  from t2 h4 have c3: "calculate_score (JObj []) [''zig''] [] = Inr (score_fields [] [] [] [''zig''] [])"
    by blast
  show ?thesis
    by (intro conjI h1 h2 h3 c1 c2 c3) (use h4 in blast)+
qed

section \<open>Properties of the search\<close>

lemma score_documents_returns:
  assumes "\<forall>doc \<in> set docs. \<exists>s. calculate_score doc original expanded = Inr s"
  shows "score_documents original expanded docs results =
           Inr (results @ positive_scores original expanded docs)"
  using assms
proof (induction docs arbitrary: results)
  case Nil
  then show ?case by (simp add: positive_scores_def)
next
  case (Cons doc docs)
  then obtain s where s: "calculate_score doc original expanded = Inr s" by auto
  from Cons have "score_documents original expanded docs rs =
           Inr (rs @ positive_scores original expanded docs)" for rs
    by simp
  with s show ?case by (simp add: positive_scores_def)
qed

lemma score_documents_InrD:
  assumes "score_documents original expanded docs results = Inr res"
  shows "\<forall>doc \<in> set docs. \<exists>s. calculate_score doc original expanded = Inr s"
  using assms
proof (induction docs arbitrary: results)
  case Nil
  then show ?case by simp
next
  case (Cons doc docs)
  then show ?case by (auto split: sum.splits)
qed

lemma set_positive_scores:
  "(doc, s) \<in> set (positive_scores original expanded docs) \<longleftrightarrow>
     doc \<in> set docs \<and> calculate_score doc original expanded = Inr s \<and> 0 < s"
  by (auto simp: positive_scores_def split: sum.splits if_splits)

lemma sorted_reverse_sorted: "sorted_wrt (\<lambda>a b. key b \<le> key a) (sorted_reverse key xs)"
proof -
  have "sorted (map key (sort_key key (rev xs)))" by simp
  then show ?thesis
    by (simp add: sorted_reverse_def sorted_wrt_rev sorted_map)
qed

lemma sorted_reverse_stable:
  "filter (\<lambda>x. key x = k) (sorted_reverse key xs) = filter (\<lambda>x. key x = k) xs"
proof -
  have "filter (\<lambda>x. key x = k) (sorted_reverse key xs) =
        rev (filter (\<lambda>x. key x = k) (sort_key key (rev xs)))"
    by (simp add: sorted_reverse_def rev_filter)
  also have "\<dots> = rev (filter (\<lambda>x. key x = k) (rev xs))"
    by (simp only: sort_key_stable)
  also have "\<dots> = filter (\<lambda>x. key x = k) xs"
    by (simp add: rev_filter)
  finally show ?thesis .
qed

lemma mset_sorted_reverse: "mset (sorted_reverse key xs) = mset xs"
  by (simp add: sorted_reverse_def)

lemma expand_words_empty_dictionary:
  "\<exists>expanded. expand_words L words (JObj []) = Inr expanded \<and>
     set expanded = set words \<union> lemmatize_word L ` set words"
proof -
  have "is_expansion_dictionary (JObj [])" by simp
  from expand_loop_set [OF this, of L words "[]"] show ?thesis
    by (auto simp: expand_words_def entry_words_missing)
qed

lemma search_documents_returns:
  assumes db: "read_json db_path = Inr documents"
    and it: "iterate documents = Inr docs"
    and wf: "list_all wf_document docs"
    and dict: "is_expansion_dictionary (load_dictionary read_json dict_path)"
  shows "\<exists>results. search_documents read_json L query db_path dict_path = Inr results"
proof -
  from expand_loop_set [OF dict, of L "preprocess_sentence query" "[]"] obtain expanded where
    ex: "expand_words L (preprocess_sentence query) (load_dictionary read_json dict_path) = Inr expanded"
    by (auto simp: expand_words_def)
  from wf have "\<forall>doc \<in> set docs. \<exists>s. calculate_score doc (preprocess_sentence query) expanded = Inr s"
    by (auto simp: list_all_iff intro: wf_document_score)
  then have "score_documents (preprocess_sentence query) expanded docs [] =
           Inr ([] @ positive_scores (preprocess_sentence query) expanded docs)"
    by (rule score_documents_returns)
  with db it ex show ?thesis
    by (simp add: search_documents_def)
qed

text \<open>
  \<open>load_dictionary\<close> replaces only a source that cannot be opened or parsed. A source
  that parses to a value of another shape is returned as it is, and expanding a query
  with at least one token then raises.
\<close>

lemma load_dictionary_parsed:
  "read_json dict_path = Inr d \<Longrightarrow> load_dictionary read_json dict_path = d"
  by (simp add: load_dictionary_def)

lemma expand_words_not_a_dict:
  "expand_words L (w # ws) (JArr xs) = Inl AttributeError"
  by (simp add: expand_words_def)

text \<open>
  C7, as stated: whenever the dictionary source is unreadable or malformed,
  \<open>load_dictionary\<close> returns an empty mapping and the search proceeds. This fails for a
  source that parses as JSON but is not a mapping from words to strings. There is no
  check of the shape: a list, or a dict with a number as a value, is returned as it is,
  it is not an expansion dictionary and not the empty mapping, and the search for a
  query with a token raises \<open>AttributeError\<close> instead of proceeding.
\<close>

theorem malformed_dictionary_counterexample:
  "malformed_files ''list.json'' = Inr (JArr [JInt 1, JInt 2]) \<and>
   \<not> is_expansion_dictionary (JArr [JInt 1, JInt 2]) \<and>
   load_dictionary malformed_files ''list.json'' = JArr [JInt 1, JInt 2] \<and>
   load_dictionary malformed_files ''list.json'' \<noteq> JObj [] \<and>
   search_documents malformed_files Map.empty ''zig'' ''db.json'' ''list.json'' =
     Inl AttributeError \<and>
   malformed_files ''numbers.json'' = Inr (JObj [(''zig'', JInt 5)]) \<and>
   \<not> is_expansion_dictionary (JObj [(''zig'', JInt 5)]) \<and>
   load_dictionary malformed_files ''numbers.json'' = JObj [(''zig'', JInt 5)] \<and>
   load_dictionary malformed_files ''numbers.json'' \<noteq> JObj [] \<and>
   search_documents malformed_files Map.empty ''zig'' ''db.json'' ''numbers.json'' =
     Inl AttributeError"
proof -
  have list_file: "malformed_files ''list.json'' = Inr (JArr [JInt 1, JInt 2])"
    by (simp add: malformed_files_def)
  have numbers_file: "malformed_files ''numbers.json'' = Inr (JObj [(''zig'', JInt 5)])"
    by (simp add: malformed_files_def)
  have list_loaded: "load_dictionary malformed_files ''list.json'' = JArr [JInt 1, JInt 2]"
    by (simp add: load_dictionary_def list_file)
  have numbers_loaded: "load_dictionary malformed_files ''numbers.json'' = JObj [(''zig'', JInt 5)]"
    by (simp add: load_dictionary_def numbers_file)
  have list_not_empty: "load_dictionary malformed_files ''list.json'' \<noteq> JObj []"
    by (simp add: list_loaded)
  have numbers_not_empty: "load_dictionary malformed_files ''numbers.json'' \<noteq> JObj []"
    by (simp add: numbers_loaded)
  have list_shape: "\<not> is_expansion_dictionary (JArr [JInt 1, JInt 2])"
    by simp
  have numbers_shape: "\<not> is_expansion_dictionary (JObj [(''zig'', JInt 5)])"
    by simp
  have list_search:
    "search_documents malformed_files Map.empty ''zig'' ''db.json'' ''list.json'' =
       Inl AttributeError"
    by code_simp
  have numbers_search:
    "search_documents malformed_files Map.empty ''zig'' ''db.json'' ''numbers.json'' =
       Inl AttributeError"
    by code_simp
  show ?thesis
    by (intro conjI list_file list_shape list_loaded list_not_empty list_search
        numbers_file numbers_shape numbers_loaded numbers_not_empty numbers_search)
qed

text \<open>
  C7, amended: when the dictionary source cannot be opened or cannot be parsed as JSON,
  so that reading it raises, \<open>load_dictionary\<close> returns the empty dict instead of
  raising. The expansion then never fails and consists of the words and their lemmas
  only, and the search still returns a result for every readable collection of documents
  with text fields.
\<close>

theorem load_dictionary_failure:
  assumes "read_json dict_path = Inl e"
  shows "load_dictionary read_json dict_path = JObj [] \<and>
         (\<exists>expanded. expand_words L words (load_dictionary read_json dict_path) = Inr expanded \<and>
            set expanded = set words \<union> lemmatize_word L ` set words) \<and>
         (read_json db_path = Inr documents \<and> iterate documents = Inr docs \<and>
          list_all wf_document docs \<longrightarrow>
            (\<exists>results. search_documents read_json L query db_path dict_path = Inr results))"
proof -
  from assms have empty: "load_dictionary read_json dict_path = JObj []"
    by (simp add: load_dictionary_def)
  then have "is_expansion_dictionary (load_dictionary read_json dict_path)"
    by simp
  then have "read_json db_path = Inr documents \<and> iterate documents = Inr docs \<and>
          list_all wf_document docs \<longrightarrow>
            (\<exists>results. search_documents read_json L query db_path dict_path = Inr results)"
    by (auto intro: search_documents_returns)
  with empty expand_words_empty_dictionary [of L words] show ?thesis
    by simp
qed

theorem load_dictionary_failure_witness:
  "example_files ''missing.json'' = Inl OSError \<and>
   (example_files ''db.json'' = Inr example_documents \<and> iterate example_documents = Inr example_docs \<and>
    list_all wf_document example_docs) \<and>
   load_dictionary example_files ''missing.json'' = JObj [] \<and>
   (\<exists>expanded. expand_words [''running'' \<mapsto> ''run''] [''running'']
                  (load_dictionary example_files ''missing.json'') = Inr expanded \<and>
      set expanded = set [''running''] \<union> lemmatize_word [''running'' \<mapsto> ''run''] ` set [''running'']) \<and>
   (\<exists>results. search_documents example_files [''running'' \<mapsto> ''run''] ''zig''
                 ''db.json'' ''missing.json'' = Inr results)"
proof -
  have h: "example_files ''missing.json'' = Inl OSError"
    by (simp add: example_files_def)
  have db: "example_files ''db.json'' = Inr example_documents \<and>
    iterate example_documents = Inr example_docs \<and> list_all wf_document example_docs"
    by (simp add: example_files_def example_documents_def example_docs_def
        field_ok_def text_or_falsy_def)
  note t = load_dictionary_failure [where read_json = example_files and dict_path = "''missing.json''"
      and e = OSError and L = "[''running'' \<mapsto> ''run'']" and words = "[''running'']"
      and db_path = "''db.json''" and documents = example_documents and docs = example_docs
      and query = "''zig''", OF h]
  from t have c1: "load_dictionary example_files ''missing.json'' = JObj []"
    by (rule conjunct1)
  from t have c2: "\<exists>expanded. expand_words [''running'' \<mapsto> ''run''] [''running'']
                  (load_dictionary example_files ''missing.json'') = Inr expanded \<and>
      set expanded = set [''running''] \<union> lemmatize_word [''running'' \<mapsto> ''run''] ` set [''running'']"
    by (rule conjunct2 [THEN conjunct1])
  from t db have c3: "\<exists>results. search_documents example_files [''running'' \<mapsto> ''run''] ''zig''
                 ''db.json'' ''missing.json'' = Inr results"
    by (rule conjunct2 [THEN conjunct2, THEN mp])
  show ?thesis
    by (intro conjI h c1 c2 c3) (use db in blast)+
qed

text \<open>
  C1. Whenever the search returns a result list for a readable collection, every
  document was scored, and the list holds exactly the documents with a positive score,
  each paired with its score; it is sorted by non-increasing score; and documents with
  equal scores keep their relative input order. The search does return a result list
  when every document has text fields and the loaded dictionary maps words to strings.
\<close>

theorem search_documents_ranked:
  "(read_json db_path = Inr documents \<and>
    search_documents read_json L query db_path dict_path = Inr results \<longrightarrow>
      (\<exists>docs expanded.
         iterate documents = Inr docs \<and>
         expand_words L (preprocess_sentence query) (load_dictionary read_json dict_path) =
           Inr expanded \<and>
         (\<forall>doc \<in> set docs. \<exists>s. calculate_score doc (preprocess_sentence query) expanded = Inr s) \<and>
         (\<forall>doc s. (doc, s) \<in> set results \<longleftrightarrow>
            doc \<in> set docs \<and> calculate_score doc (preprocess_sentence query) expanded = Inr s \<and> 0 < s) \<and>
         mset results = mset (positive_scores (preprocess_sentence query) expanded docs) \<and>
         sorted_wrt (\<lambda>a b. snd b \<le> snd a) results \<and>
         (\<forall>k. filter (\<lambda>r. snd r = k) results =
              filter (\<lambda>r. snd r = k) (positive_scores (preprocess_sentence query) expanded docs)))) \<and>
   (read_json db_path = Inr documents \<and> iterate documents = Inr docs' \<and>
    list_all wf_document docs' \<and>
    is_expansion_dictionary (load_dictionary read_json dict_path) \<longrightarrow>
      (\<exists>results. search_documents read_json L query db_path dict_path = Inr results))"
proof (intro conjI impI)
  assume "read_json db_path = Inr documents \<and> iterate documents = Inr docs' \<and>
    list_all wf_document docs' \<and>
    is_expansion_dictionary (load_dictionary read_json dict_path)"
  then show "\<exists>results. search_documents read_json L query db_path dict_path = Inr results"
    by (auto intro: search_documents_returns)
next
  let ?orig = "preprocess_sentence query"
  assume "read_json db_path = Inr documents \<and>
    search_documents read_json L query db_path dict_path = Inr results"
  then have db: "read_json db_path = Inr documents"
    and search: "search_documents read_json L query db_path dict_path = Inr results"
    by simp_all
  from search db obtain expanded where
    ex: "expand_words L ?orig (load_dictionary read_json dict_path) = Inr expanded"
    by (cases "expand_words L ?orig (load_dictionary read_json dict_path)")
       (simp_all add: search_documents_def)
  from search db ex obtain docs where it: "iterate documents = Inr docs"
    by (cases "iterate documents") (simp_all add: search_documents_def)
  from search db ex it obtain scored where
    sc: "score_documents ?orig expanded docs [] = Inr scored"
    and res: "results = sorted_reverse snd scored"
    by (cases "score_documents ?orig expanded docs []") (simp_all add: search_documents_def)
  from sc have all: "\<forall>doc \<in> set docs. \<exists>s. calculate_score doc ?orig expanded = Inr s"
    by (rule score_documents_InrD)
  with sc have scored: "scored = positive_scores ?orig expanded docs"
    by (simp add: score_documents_returns)
  have ms: "mset results = mset (positive_scores ?orig expanded docs)"
    by (simp add: res scored mset_sorted_reverse)
  then have "set results = set (positive_scores ?orig expanded docs)"
    by (rule mset_eq_setD)
  then have mem: "\<forall>doc s. (doc, s) \<in> set results \<longleftrightarrow>
            doc \<in> set docs \<and> calculate_score doc ?orig expanded = Inr s \<and> 0 < s"
    by (simp add: set_positive_scores)
  have sorted: "sorted_wrt (\<lambda>a b. snd b \<le> snd a) results"
    unfolding res by (rule sorted_reverse_sorted)
  have stable: "\<forall>k. filter (\<lambda>r. snd r = k) results =
              filter (\<lambda>r. snd r = k) (positive_scores ?orig expanded docs)"
    unfolding res scored by (simp add: sorted_reverse_stable)
  from it ex all mem ms sorted stable
  show "\<exists>docs expanded.
         iterate documents = Inr docs \<and>
         expand_words L ?orig (load_dictionary read_json dict_path) = Inr expanded \<and>
         (\<forall>doc \<in> set docs. \<exists>s. calculate_score doc ?orig expanded = Inr s) \<and>
         (\<forall>doc s. (doc, s) \<in> set results \<longleftrightarrow>
            doc \<in> set docs \<and> calculate_score doc ?orig expanded = Inr s \<and> 0 < s) \<and>
         mset results = mset (positive_scores ?orig expanded docs) \<and>
         sorted_wrt (\<lambda>a b. snd b \<le> snd a) results \<and>
         (\<forall>k. filter (\<lambda>r. snd r = k) results =
              filter (\<lambda>r. snd r = k) (positive_scores ?orig expanded docs))"
    by blast
qed

theorem search_documents_ranked_witness:
  "(example_files ''db.json'' = Inr example_documents \<and>
    search_documents example_files Map.empty ''zig'' ''db.json'' ''dict.json'' = Inr example_results) \<and>
   (example_files ''db.json'' = Inr example_documents \<and> iterate example_documents = Inr example_docs \<and>
    list_all wf_document example_docs \<and>
    is_expansion_dictionary (load_dictionary example_files ''dict.json'')) \<and>
   (\<exists>docs expanded.
      iterate example_documents = Inr docs \<and>
      expand_words Map.empty (preprocess_sentence ''zig'') (load_dictionary example_files ''dict.json'') =
        Inr expanded \<and>
      (\<forall>doc \<in> set docs. \<exists>s. calculate_score doc (preprocess_sentence ''zig'') expanded = Inr s) \<and>
      (\<forall>doc s. (doc, s) \<in> set example_results \<longleftrightarrow>
         doc \<in> set docs \<and> calculate_score doc (preprocess_sentence ''zig'') expanded = Inr s \<and> 0 < s) \<and>
      mset example_results = mset (positive_scores (preprocess_sentence ''zig'') expanded docs) \<and>
      sorted_wrt (\<lambda>a b. snd b \<le> snd a) example_results \<and>
      (\<forall>k. filter (\<lambda>r. snd r = k) example_results =
           filter (\<lambda>r. snd r = k) (positive_scores (preprocess_sentence ''zig'') expanded docs))) \<and>
   (\<exists>results. search_documents example_files Map.empty ''zig'' ''db.json'' ''dict.json'' = Inr results)"
proof -
  have h1: "example_files ''db.json'' = Inr example_documents"
    by (simp add: example_files_def)
  have h2: "search_documents example_files Map.empty ''zig'' ''db.json'' ''dict.json'' =
              Inr example_results"
    by code_simp
  have h3: "iterate example_documents = Inr example_docs"
    by (simp add: example_documents_def)
  have h4: "list_all wf_document example_docs"
    by (simp add: example_docs_def field_ok_def text_or_falsy_def)
  have h5: "is_expansion_dictionary (load_dictionary example_files ''dict.json'')"
    by (simp add: load_dictionary_def example_files_def)
  note t = search_documents_ranked [where read_json = example_files and db_path = "''db.json''"
      and documents = example_documents and L = Map.empty and query = "''zig''"
      and dict_path = "''dict.json''" and results = example_results and docs' = example_docs]
  show ?thesis
    by (intro conjI h1 h2 h3 h4 h5 t [THEN conjunct1, THEN mp] t [THEN conjunct2, THEN mp])
qed

end
